theory Spec2Isabelle
  imports Complex_Main
begin

section \<open>Data types of the monitoring system (openhands/monitoring/types.py)\<close>

text \<open>
  The enums of \<^verbatim>\<open>types.py\<close> are datatypes, its dataclasses are records. Field names
  are the source's, except where a name is a HOL constant or is shared by two
  dataclasses (then it carries a prefix). Python's \<^verbatim>\<open>float\<close> is modelled by the
  exact reals (no rounding), \<^verbatim>\<open>datetime\<close> by a real number of seconds on the clock,
  Python's \<^verbatim>\<open>int\<close> by \<^typ>\<open>int\<close>, \<^verbatim>\<open>Dict[str, Any]\<close> by a map from strings to a small
  union of values.
\<close>

datatype ActivityType =
    AGENT_EXECUTION | TOOL_EXECUTION | LLM_CALL | FILE_OPERATION
  | COMMAND_EXECUTION | NETWORK_REQUEST | MEMORY_OPERATION | WORKFLOW_STEP

datatype ActivityStatus = STARTED | COMPLETED | FAILED | CANCELLED

datatype py_value = PyNone | PyBool bool | PyInt int | PyFloat real | PyStr string

type_synonym py_dict = "string \<rightharpoonup> py_value"

record Activity =
  activity_id :: string
  activity_type :: ActivityType
  name :: string
  timestamp :: real
  status :: ActivityStatus
  metadata :: py_dict
  duration :: "real option"
  parent_id :: "string option"
  children :: "string list"

record SystemMetrics =
  sample_timestamp :: real
  cpu_usage :: real
  memory_usage :: real
  disk_usage :: real
  network_io :: "string \<rightharpoonup> real"
  active_processes :: int

record AgentMetrics =
  agent_name :: string
  tasks_completed :: int
  tasks_failed :: int
  average_response_time :: real
  tool_usage :: "string \<rightharpoonup> int"
  token_usage :: int

record VisualizationConfig =
  enabled :: bool
  update_interval :: real
  max_history :: int
  enable_resource_monitoring :: bool
  enable_agent_metrics :: bool
  enable_detailed_logging :: bool

section \<open>The monitor's state (ActivityMonitor.__init__)\<close>

text \<open>
  A subscriber is a Python callable. What the monitor can observe of a call is how it
  ends: it returns, it raises an instance of \<^verbatim>\<open>Exception\<close>, or it raises a
  \<^verbatim>\<open>BaseException\<close> that is no \<^verbatim>\<open>Exception\<close> (KeyboardInterrupt, SystemExit), which
  \<^verbatim>\<open>except Exception\<close> does not catch. A subscriber carries a tag, so that the calls
  made can be told apart.
\<close>

datatype callback_outcome = Returns | RaisesException | RaisesBaseException

datatype subscriber =
  Subscriber (sub_tag: nat) (sub_call: "Activity \<Rightarrow> callback_outcome")

datatype py_exn = PropagatedBaseException

text \<open>The \<^verbatim>\<open>stats\<close> dictionary has four fixed keys.\<close>

record Stats =
  activities_started :: int
  activities_completed :: int
  activities_failed :: int
  total_duration :: real

text \<open>
  The fields of \<^verbatim>\<open>ActivityMonitor\<close>. The lock, the executor and the sampling task are
  left out: every operation below is one critical section followed by the
  notification, and is modelled as one atomic step. \<open>delivered\<close> is no field of the
  source: it is the trace of the subscriber calls made so far, \<open>(tag, activity)\<close> in
  the order of the calls, the observable effect of \<^verbatim>\<open>_notify_subscribers\<close>.
\<close>

record ActivityMonitor =
  config :: VisualizationConfig
  activities :: "string \<rightharpoonup> Activity"
  activities_history :: "Activity list"
  system_metrics :: "SystemMetrics list"
  agent_metrics :: "string \<rightharpoonup> AgentMetrics"
  subscribers :: "subscriber list"
  stats :: Stats
  delivered :: "(nat \<times> Activity) list"

definition default_config :: VisualizationConfig where
  "default_config =
     \<lparr>enabled = True, update_interval = 1 / 10, max_history = 1000,
      enable_resource_monitoring = True, enable_agent_metrics = True,
      enable_detailed_logging = False\<rparr>"

definition init_monitor :: "VisualizationConfig \<Rightarrow> ActivityMonitor" where
  "init_monitor cfg =
     \<lparr>config = cfg, activities = Map.empty, activities_history = [],
      system_metrics = [], agent_metrics = Map.empty, subscribers = [],
      stats = \<lparr>activities_started = 0, activities_completed = 0,
                activities_failed = 0, total_duration = 0\<rparr>,
      delivered = []\<rparr>"

section \<open>Python slicing\<close>

text \<open>
  \<^verbatim>\<open>xs[start:]\<close> as Python computes it: a negative start counts from the end and is
  clipped at 0, a start beyond the end is clipped at the length. The source writes
  \<^verbatim>\<open>xs[-k:]\<close>, that is \<open>py_slice_from (- k) xs\<close>; for \<open>k = 0\<close> the start is \<open>0\<close>.
\<close>

definition py_slice_from :: "int \<Rightarrow> 'a list \<Rightarrow> 'a list" where
  "py_slice_from start xs =
     (let n = int (length xs);
          i = (if start < 0 then max 0 (start + n) else min start n)
      in drop (nat i) xs)"

section \<open>Notification (ActivityMonitor._notify_subscribers)\<close>

text \<open>
  The loop over \<^verbatim>\<open>self.subscribers\<close>: each subscriber is called with the activity; an
  \<^verbatim>\<open>Exception\<close> is caught and passed over, anything else a call raises leaves the loop
  and the method. The result is how the method ends and the calls it made.
\<close>

fun notify_subscribers ::
  "subscriber list \<Rightarrow> Activity \<Rightarrow> (py_exn + unit) \<times> (nat \<times> Activity) list" where
  "notify_subscribers [] activity = (Inr (), [])"
| "notify_subscribers (sub # rest) activity =
     (case sub_call sub activity of
        Returns \<Rightarrow>
          (let (r, calls) = notify_subscribers rest activity
           in (r, (sub_tag sub, activity) # calls))
      | RaisesException \<Rightarrow>
          (let (r, calls) = notify_subscribers rest activity
           in (r, (sub_tag sub, activity) # calls))
      | RaisesBaseException \<Rightarrow>
          (Inl PropagatedBaseException, [(sub_tag sub, activity)]))"

section \<open>The operations of ActivityMonitor\<close>

text \<open>
  \<^verbatim>\<open>start_activity\<close>. The identifier \<^verbatim>\<open>str(uuid.uuid4())\<close> and the clock
  \<^verbatim>\<open>datetime.now()\<close> are inputs of the model (\<open>uuid4\<close>, \<open>now\<close>). The result is what the
  caller gets (the id, or the exception a subscriber let through) and the state
  afterwards; the state is updated before the subscribers are called.
\<close>

definition start_activity ::
  "string \<Rightarrow> real \<Rightarrow> ActivityType \<Rightarrow> string \<Rightarrow> py_dict option \<Rightarrow> string option \<Rightarrow>
   ActivityMonitor \<Rightarrow> (py_exn + string) \<times> ActivityMonitor" where
  "start_activity uuid4 now ty nm md parent s =
     (if \<not> enabled (config s) then (Inr [], s)
      else
        let activity =
              \<lparr>activity_id = uuid4, activity_type = ty, name = nm, timestamp = now,
               status = STARTED,
               metadata = (case md of None \<Rightarrow> Map.empty | Some m \<Rightarrow> m),
               duration = None, parent_id = parent, children = []\<rparr>;
            s1 = s\<lparr>activities := (activities s)(uuid4 \<mapsto> activity),
                   stats := (stats s)\<lparr>activities_started :=
                                          activities_started (stats s) + 1\<rparr>\<rparr>;
            (r, calls) = notify_subscribers (subscribers s1) activity
        in (case r of Inl e \<Rightarrow> Inl e | Inr _ \<Rightarrow> Inr uuid4,
            s1\<lparr>delivered := delivered s1 @ calls\<rparr>))"

text \<open>
  \<^verbatim>\<open>end_activity\<close>. \<^verbatim>\<open>if metadata:\<close> is false for \<^verbatim>\<open>None\<close> and for the empty dictionary.
  The history is trimmed by \<^verbatim>\<open>self.activities_history[-self.config.max_history:]\<close> when
  it is longer than \<^verbatim>\<open>max_history\<close>.
\<close>

definition end_activity ::
  "real \<Rightarrow> string \<Rightarrow> ActivityStatus \<Rightarrow> py_dict option \<Rightarrow>
   ActivityMonitor \<Rightarrow> (py_exn + unit) \<times> ActivityMonitor" where
  "end_activity now act_id st md s =
     (if \<not> enabled (config s) \<or> act_id = [] then (Inr (), s)
      else
        case activities s act_id of
          None \<Rightarrow> (Inr (), s)
        | Some a \<Rightarrow>
            let d = now - timestamp a;
                activity =
                  a\<lparr>status := st, duration := Some d,
                    metadata :=
                      (case md of
                         None \<Rightarrow> metadata a
                       | Some m \<Rightarrow> if m = Map.empty then metadata a else metadata a ++ m)\<rparr>;
                hist = activities_history s @ [activity];
                acts = (activities s)(act_id := None);
                stats1 =
                  (if st = COMPLETED then
                     (stats s)\<lparr>activities_completed := activities_completed (stats s) + 1,
                              total_duration := total_duration (stats s) + d\<rparr>
                   else if st = FAILED then
                     (stats s)\<lparr>activities_failed := activities_failed (stats s) + 1\<rparr>
                   else stats s);
                hist1 =
                  (if int (length hist) > max_history (config s)
                   then py_slice_from (- max_history (config s)) hist else hist);
                s1 = s\<lparr>activities := acts, activities_history := hist1, stats := stats1\<rparr>;
                (r, calls) = notify_subscribers (subscribers s1) activity
            in (r, s1\<lparr>delivered := delivered s1 @ calls\<rparr>))"

text \<open>\<^verbatim>\<open>add_child_activity\<close>: the child id is appended to the live parent's children.\<close>

definition add_child_activity :: "string \<Rightarrow> string \<Rightarrow> ActivityMonitor \<Rightarrow> ActivityMonitor" where
  "add_child_activity parent child s =
     (if \<not> enabled (config s) then s
      else
        case activities s parent of
          None \<Rightarrow> s
        | Some p \<Rightarrow>
            (case activities s child of
               None \<Rightarrow> s
             | Some _ \<Rightarrow>
                 s\<lparr>activities :=
                     (activities s)(parent \<mapsto> p\<lparr>children := children p @ [child]\<rparr>)\<rparr>))"

text \<open>
  \<^verbatim>\<open>update_agent_metrics\<close>. The update dictionary is read by the presence of the keys
  \<^verbatim>\<open>task_completed\<close> and \<^verbatim>\<open>task_failed\<close> and by the values under \<^verbatim>\<open>response_time\<close>,
  \<^verbatim>\<open>tool_used\<close> and \<^verbatim>\<open>tokens_used\<close>. \<open>apply_metrics_update\<close> is the sequence of five
  \<^verbatim>\<open>if\<close> statements on the entity's record, in the source's order.
\<close>

record metrics_update =
  task_completed :: bool
  task_failed :: bool
  response_time :: "real option"
  tool_used :: "string option"
  tokens_used :: "int option"

definition new_agent_metrics :: "string \<Rightarrow> AgentMetrics" where
  "new_agent_metrics nm =
     \<lparr>agent_name = nm, tasks_completed = 0, tasks_failed = 0,
      average_response_time = 0, tool_usage = Map.empty, token_usage = 0\<rparr>"

definition apply_metrics_update :: "metrics_update \<Rightarrow> AgentMetrics \<Rightarrow> AgentMetrics" where
  "apply_metrics_update u m0 =
     (let m1 = (if task_completed u then m0\<lparr>tasks_completed := tasks_completed m0 + 1\<rparr> else m0);
          m2 = (if task_failed u then m1\<lparr>tasks_failed := tasks_failed m1 + 1\<rparr> else m1);
          m3 = (case response_time u of
                  None \<Rightarrow> m2
                | Some x \<Rightarrow>
                    (let total_tasks = tasks_completed m2 + tasks_failed m2
                     in if total_tasks > 0
                        then m2\<lparr>average_response_time :=
                                  (average_response_time m2 * of_int (total_tasks - 1) + x)
                                  / of_int total_tasks\<rparr>
                        else m2));
          m4 = (case tool_used u of
                  None \<Rightarrow> m3
                | Some t \<Rightarrow>
                    m3\<lparr>tool_usage :=
                         (tool_usage m3)(t \<mapsto> (case tool_usage m3 t of None \<Rightarrow> 0 | Some c \<Rightarrow> c) + 1)\<rparr>)
      in (case tokens_used u of
            None \<Rightarrow> m4
          | Some k \<Rightarrow> m4\<lparr>token_usage := token_usage m4 + k\<rparr>))"

definition update_agent_metrics :: "string \<Rightarrow> metrics_update \<Rightarrow> ActivityMonitor \<Rightarrow> ActivityMonitor" where
  "update_agent_metrics nm u s =
     (if \<not> enabled (config s) \<or> \<not> enable_agent_metrics (config s) then s
      else
        let metrics = (case agent_metrics s nm of
                         None \<Rightarrow> new_agent_metrics nm
                       | Some m \<Rightarrow> m)
        in s\<lparr>agent_metrics := (agent_metrics s)(nm \<mapsto> apply_metrics_update u metrics)\<rparr>)"

text \<open>\<^verbatim>\<open>subscribe_to_activities\<close>, \<^verbatim>\<open>get_recent_activities\<close>, and the runtime switch
  \<^verbatim>\<open>monitor.config.enabled = enable\<close> of \<^verbatim>\<open>integration.py\<close>.\<close>

definition subscribe_to_activities :: "subscriber \<Rightarrow> ActivityMonitor \<Rightarrow> ActivityMonitor" where
  "subscribe_to_activities callback s = s\<lparr>subscribers := subscribers s @ [callback]\<rparr>"

definition get_recent_activities :: "int \<Rightarrow> ActivityMonitor \<Rightarrow> Activity list" where
  "get_recent_activities limit s = py_slice_from (- limit) (activities_history s)"

definition set_enabled :: "bool \<Rightarrow> ActivityMonitor \<Rightarrow> ActivityMonitor" where
  "set_enabled enable s = s\<lparr>config := (config s)\<lparr>enabled := enable\<rparr>\<rparr>"

section \<open>Runs of the monitor\<close>

text \<open>
  One call of the public interface, with the inputs it draws from the environment
  (the uuid and the clock). A run applies the calls in order; what a call hands back
  to its caller is dropped, the state goes on. The state is updated before the
  subscribers are called, so it goes on also when a subscriber lets a
  \<^verbatim>\<open>BaseException\<close> through.
\<close>

datatype operation =
    StartActivity string real ActivityType string "py_dict option" "string option"
  | EndActivity real string ActivityStatus "py_dict option"
  | AddChildActivity string string
  | UpdateAgentMetrics string metrics_update
  | SubscribeToActivities subscriber
  | SetEnabled bool

fun step :: "operation \<Rightarrow> ActivityMonitor \<Rightarrow> ActivityMonitor" where
  "step (StartActivity u now ty nm md p) s = snd (start_activity u now ty nm md p s)"
| "step (EndActivity now k st md) s = snd (end_activity now k st md s)"
| "step (AddChildActivity p c) s = add_child_activity p c s"
| "step (UpdateAgentMetrics nm u) s = update_agent_metrics nm u s"
| "step (SubscribeToActivities cb) s = subscribe_to_activities cb s"
| "step (SetEnabled b) s = set_enabled b s"

fun run :: "operation list \<Rightarrow> ActivityMonitor \<Rightarrow> ActivityMonitor" where
  "run [] s = s"
| "run (c # cs) s = run cs (step c s)"

text \<open>The uuids the \<^verbatim>\<open>start_activity\<close> calls of a run draw, in order.\<close>

fun drawn_ids :: "operation list \<Rightarrow> string list" where
  "drawn_ids [] = []"
| "drawn_ids (StartActivity u now ty nm md p # cs) = u # drawn_ids cs"
| "drawn_ids (c # cs) = drawn_ids cs"

text \<open>The non-empty ids that the \<^verbatim>\<open>start_activity\<close> calls of a run hand back.\<close>

fun returned_id :: "operation \<Rightarrow> ActivityMonitor \<Rightarrow> string set" where
  "returned_id (StartActivity u now ty nm md p) s =
     (case fst (start_activity u now ty nm md p s) of
        Inl e \<Rightarrow> {}
      | Inr i \<Rightarrow> if i = [] then {} else {i})"
| "returned_id c s = {}"

fun returned_ids :: "operation list \<Rightarrow> ActivityMonitor \<Rightarrow> string set" where
  "returned_ids [] s = {}"
| "returned_ids (c # cs) s = returned_id c s \<union> returned_ids cs (step c s)"

text \<open>A sequence of \<^verbatim>\<open>end_activity\<close> calls, each \<open>(now, id, status, metadata)\<close>.\<close>

type_synonym end_call = "real \<times> string \<times> ActivityStatus \<times> py_dict option"

fun end_activities :: "end_call list \<Rightarrow> ActivityMonitor \<Rightarrow> ActivityMonitor" where
  "end_activities [] s = s"
| "end_activities ((now, k, st, md) # es) s =
     end_activities es (snd (end_activity now k st md s))"

text \<open>A sequence of \<^verbatim>\<open>update_agent_metrics\<close> calls for one entity.\<close>

fun update_agent_metrics_all ::
  "string \<Rightarrow> metrics_update list \<Rightarrow> ActivityMonitor \<Rightarrow> ActivityMonitor" where
  "update_agent_metrics_all nm [] s = s"
| "update_agent_metrics_all nm (u # us) s =
     update_agent_metrics_all nm us (update_agent_metrics nm u s)"

section \<open>Notions used to state the properties\<close>

text \<open>
  The record that \<^verbatim>\<open>end_activity\<close> leaves of a live activity \<open>a\<close>: status, duration and
  merged metadata as lines 115 to 119 of \<^verbatim>\<open>monitor.py\<close> assign them.
\<close>

definition finalized :: "real \<Rightarrow> ActivityStatus \<Rightarrow> py_dict option \<Rightarrow> Activity \<Rightarrow> Activity" where
  "finalized now st md a =
     a\<lparr>status := st, duration := Some (now - timestamp a),
       metadata :=
         (case md of
            None \<Rightarrow> metadata a
          | Some m \<Rightarrow> if m = Map.empty then metadata a else metadata a ++ m)\<rparr>"

definition history_ids :: "ActivityMonitor \<Rightarrow> string set" where
  "history_ids s = activity_id ` set (activities_history s)"

text \<open>The last \<open>k\<close> elements of a list (all of it when it is shorter).\<close>

definition last_n :: "nat \<Rightarrow> 'a list \<Rightarrow> 'a list" where
  "last_n k xs = drop (length xs - k) xs"

text \<open>
  The consistency of a state whose ids were all drawn from \<open>D\<close>: live keys and history
  ids lie in \<open>D\<close> and are disjoint, no id is twice in the history, a live record sits
  under its own id, has no duration and has status \<^verbatim>\<open>STARTED\<close>, and a record of the
  history has a duration.
\<close>

definition consistent :: "string set \<Rightarrow> ActivityMonitor \<Rightarrow> bool" where
  "consistent D s \<longleftrightarrow>
     dom (activities s) \<subseteq> D \<and> history_ids s \<subseteq> D \<and>
     dom (activities s) \<inter> history_ids s = {} \<and>
     distinct (map activity_id (activities_history s)) \<and>
     (\<forall>k a. activities s k = Some a \<longrightarrow>
        activity_id a = k \<and> duration a = None \<and> status a = STARTED) \<and>
     (\<forall>h \<in> set (activities_history s). duration h \<noteq> None)"

text \<open>
  The ids of \<open>R\<close> are accounted for: the history is no longer than the cap, and an id
  of \<open>R\<close> is live, or in the history, or the history is full (its length is the cap).
\<close>

definition accounted :: "string set \<Rightarrow> ActivityMonitor \<Rightarrow> bool" where
  "accounted R s \<longleftrightarrow>
     int (length (activities_history s)) \<le> max_history (config s) \<and>
     (\<forall>x \<in> R. x \<in> dom (activities s) \<or> x \<in> history_ids s \<or>
        int (length (activities_history s)) = max_history (config s))"

text \<open>The samples of a sequence of updates that come with a completed or failed flag, and
  the arithmetic mean.\<close>

definition flagged_samples :: "metrics_update list \<Rightarrow> real list" where
  "flagged_samples us =
     concat (map (\<lambda>u. case response_time u of
                         None \<Rightarrow> []
                       | Some x \<Rightarrow> if task_completed u \<or> task_failed u then [x] else []) us)"

definition mean :: "real list \<Rightarrow> real" where
  "mean xs = sum_list xs / of_nat (length xs)"

text \<open>An update that counts one task and carries its sample; an update that carries
  neither flag nor sample; an update that carries no flag.\<close>

definition paired :: "metrics_update \<Rightarrow> bool" where
  "paired u \<longleftrightarrow> (task_completed u \<noteq> task_failed u) \<and> response_time u \<noteq> None"

definition idle :: "metrics_update \<Rightarrow> bool" where
  "idle u \<longleftrightarrow> \<not> task_completed u \<and> \<not> task_failed u \<and> response_time u = None"

definition unflagged :: "metrics_update \<Rightarrow> bool" where
  "unflagged u \<longleftrightarrow> \<not> task_completed u \<and> \<not> task_failed u"

text \<open>The id an \<^verbatim>\<open>end_activity\<close> call names, and the records a sequence of such calls
  leaves of the activities that are live in \<open>s\<close>, in the order of the calls.\<close>

definition call_id :: "end_call \<Rightarrow> string" where
  "call_id e = fst (snd e)"

definition ended_records :: "end_call list \<Rightarrow> ActivityMonitor \<Rightarrow> Activity list" where
  "ended_records es s =
     concat (map (\<lambda>(now, k, st, md).
        case activities s k of None \<Rightarrow> [] | Some a \<Rightarrow> [finalized now st md a]) es)"

text \<open>The five \<^verbatim>\<open>if\<close> statements of \<^verbatim>\<open>update_agent_metrics\<close> applied for each update of a
  sequence in turn, on the entity's record.\<close>

definition apply_all :: "metrics_update list \<Rightarrow> AgentMetrics \<Rightarrow> AgentMetrics" where
  "apply_all us m = foldl (\<lambda>m u. apply_metrics_update u m) m us"

section \<open>Example states and inputs\<close>

definition off_monitor :: ActivityMonitor where
  "off_monitor = init_monitor (default_config\<lparr>enabled := False\<rparr>)"

definition on_monitor :: ActivityMonitor where
  "on_monitor = init_monitor default_config"

definition capped_monitor :: "int \<Rightarrow> ActivityMonitor" where
  "capped_monitor cap = init_monitor (default_config\<lparr>max_history := cap\<rparr>)"

definition sample_update :: "bool \<Rightarrow> real \<Rightarrow> metrics_update" where
  "sample_update flag x =
     \<lparr>task_completed = flag, task_failed = False, response_time = Some x,
      tool_used = None, tokens_used = None\<rparr>"

definition start_fetch :: "string \<Rightarrow> real \<Rightarrow> operation" where
  "start_fetch u now = StartActivity u now TOOL_EXECUTION ''fetch'' None None"

definition failing_subscriber :: subscriber where
  "failing_subscriber = Subscriber 0 (\<lambda>a. RaisesException)"

definition succeeding_subscriber :: subscriber where
  "succeeding_subscriber = Subscriber 1 (\<lambda>a. Returns)"

text \<open>A subscriber whose call ends in a \<^verbatim>\<open>KeyboardInterrupt\<close>, which is no \<^verbatim>\<open>Exception\<close>.\<close>

definition interrupted_subscriber :: subscriber where
  "interrupted_subscriber = Subscriber 2 (\<lambda>a. RaisesBaseException)"

text \<open>Two activities are started and then ended, in the order they were started.\<close>

definition eviction_run :: "operation list" where
  "eviction_run =
     [start_fetch ''u1'' 0, start_fetch ''u2'' 1,
      EndActivity 2 ''u1'' COMPLETED None, EndActivity 3 ''u2'' COMPLETED None]"

text \<open>One activity is ended while another stays live.\<close>

definition ended_u1 :: ActivityMonitor where
  "ended_u1 =
     run [start_fetch ''u1'' 1, start_fetch ''u2'' 2, EndActivity 3 ''u1'' COMPLETED None]
       on_monitor"

definition fetch_activity :: Activity where
  "fetch_activity =
     \<lparr>activity_id = ''u1'', activity_type = TOOL_EXECUTION, name = ''fetch'', timestamp = 1,
      status = STARTED, metadata = Map.empty, duration = None, parent_id = None,
      children = []\<rparr>"

text \<open>A counted sample, then a sample with no flag.\<close>

definition pair_run :: "metrics_update list" where
  "pair_run = [sample_update True 2, sample_update False 4]"

section \<open>Python slicing: lemmas\<close>

lemma py_slice_from_zero: "py_slice_from 0 xs = xs"
  by (simp add: py_slice_from_def)

lemma py_slice_from_neg:
  "1 \<le> k \<Longrightarrow> py_slice_from (- k) xs = drop (length xs - nat k) xs"
  by (auto simp add: py_slice_from_def Let_def max_def nat_diff_distrib'
      intro!: arg_cong2[where f=drop])

section \<open>Disabled store\<close>

text \<open>
  Claim C5. With the enabled flag off, \<^verbatim>\<open>start_activity\<close> hands back the empty id and
  leaves the whole state as it was, and \<^verbatim>\<open>end_activity\<close> (with any id, the empty one
  included) returns normally and leaves the whole state as it was: live set, history,
  counters, agent metrics and the trace of subscriber calls are fields of that state.
\<close>

theorem disabled_store_is_inert:
  assumes "\<not> enabled (config s)"
  shows "start_activity uuid4 now ty nm md parent s = (Inr [], s) \<and>
         end_activity now' act_id st md' s = (Inr (), s)"
  using assms by (simp add: start_activity_def end_activity_def)

theorem disabled_store_is_inert_witness:
  "\<not> enabled (config off_monitor) \<and>
   start_activity ''u1'' 5 TOOL_EXECUTION ''fetch'' None None off_monitor = (Inr [], off_monitor) \<and>
   end_activity 7 [] COMPLETED None off_monitor = (Inr (), off_monitor)"
  using disabled_store_is_inert
    [of off_monitor "''u1''" 5 TOOL_EXECUTION "''fetch''" None None 7 "[]" COMPLETED None]
  by (simp add: off_monitor_def init_monitor_def default_config_def)

section \<open>The steps of the monitor, and what every run preserves\<close>

lemma end_activity_live:
  assumes "enabled (config s)" and "k \<noteq> []" and "activities s k = Some a"
  shows "snd (end_activity now k st md s) =
     s\<lparr>activities := (activities s)(k := None),
       activities_history :=
         (if int (length (activities_history s)) + 1 > max_history (config s)
          then py_slice_from (- max_history (config s)) (activities_history s @ [finalized now st md a])
          else activities_history s @ [finalized now st md a]),
       stats :=
         (if st = COMPLETED then
            (stats s)\<lparr>activities_completed := activities_completed (stats s) + 1,
                     total_duration := total_duration (stats s) + (now - timestamp a)\<rparr>
          else if st = FAILED then
            (stats s)\<lparr>activities_failed := activities_failed (stats s) + 1\<rparr>
          else stats s),
       delivered := delivered s @ snd (notify_subscribers (subscribers s) (finalized now st md a))\<rparr>"
  using assms
  by (simp add: end_activity_def Let_def finalized_def split: prod.splits)

lemma end_activity_skip:
  "\<not> enabled (config s) \<or> k = [] \<or> activities s k = None \<Longrightarrow>
   end_activity now k st md s = (Inr (), s)"
  by (auto simp add: end_activity_def)

lemma start_activity_enabled:
  assumes "enabled (config s)"
  shows "snd (start_activity u now ty nm md p s) =
     s\<lparr>activities := (activities s)(u \<mapsto>
          \<lparr>activity_id = u, activity_type = ty, name = nm, timestamp = now,
           status = STARTED, metadata = (case md of None \<Rightarrow> Map.empty | Some m \<Rightarrow> m),
           duration = None, parent_id = p, children = []\<rparr>),
       stats := (stats s)\<lparr>activities_started := activities_started (stats s) + 1\<rparr>,
       delivered := delivered s @ snd (notify_subscribers (subscribers s)
          \<lparr>activity_id = u, activity_type = ty, name = nm, timestamp = now,
           status = STARTED, metadata = (case md of None \<Rightarrow> Map.empty | Some m \<Rightarrow> m),
           duration = None, parent_id = p, children = []\<rparr>)\<rparr>"
  using assms by (simp add: start_activity_def Let_def split: prod.splits)

lemma trimmed_is_drop:
  "\<exists>n. (if int (length xs) + 1 > cap then py_slice_from (- cap) (xs @ [x]) else xs @ [x]) = drop n (xs @ [x])"
proof (cases "int (length xs) + 1 > cap")
  case True
  then show ?thesis unfolding py_slice_from_def Let_def by (simp only: if_True) blast
next
  case False
  then have "(if int (length xs) + 1 > cap then py_slice_from (- cap) (xs @ [x]) else xs @ [x]) = drop 0 (xs @ [x])"
    by simp
  then show ?thesis by blast
qed

lemma last_n_last_n: "last_n k (last_n k xs @ ys) = last_n k (xs @ ys)"
  by (cases "length xs \<le> k") (auto simp add: last_n_def intro!: arg_cong2[where f=drop])

lemma trim_last_n:
  "1 \<le> cap \<Longrightarrow>
   (if int (length xs) + 1 > cap then py_slice_from (- cap) (xs @ [x]) else xs @ [x]) = last_n (nat cap) (xs @ [x])"
  by (auto simp add: py_slice_from_neg last_n_def)

lemma consistent_end:
  assumes c: "consistent D s"
  shows "consistent D (snd (end_activity now k st md s))"
proof (cases "\<not> enabled (config s) \<or> k = [] \<or> activities s k = None")
  case True
  then show ?thesis using c by (simp add: end_activity_skip)
next
  case False
  then obtain a where en: "enabled (config s)" and k: "k \<noteq> []" and a: "activities s k = Some a"
    by auto
  let ?f = "finalized now st md a"
  obtain n where n: "(if int (length (activities_history s)) + 1 > max_history (config s)
          then py_slice_from (- max_history (config s)) (activities_history s @ [?f])
          else activities_history s @ [?f]) = drop n (activities_history s @ [?f])"
    using trimmed_is_drop[of "max_history (config s)" "activities_history s" ?f] by (elim exE)
  have ida: "activity_id a = k" using c a by (simp add: consistent_def)
  have idf: "activity_id ?f = k" using ida by (simp add: finalized_def)
  have knot: "k \<notin> history_ids s" using c a by (auto simp add: consistent_def)
  have kD: "k \<in> D" using c a by (auto simp add: consistent_def)
  have dist: "distinct (map activity_id (activities_history s @ [?f]))"
    using c knot idf by (simp add: consistent_def history_ids_def)
  have sub: "set (drop n (activities_history s @ [?f])) \<subseteq> set (activities_history s) \<union> {?f}"
    using set_drop_subset[of n "activities_history s @ [?f]"] by auto
  have st: "snd (end_activity now k st md s) =
      s\<lparr>activities := (activities s)(k := None),
        activities_history := drop n (activities_history s @ [?f]),
        stats :=
         (if st = COMPLETED then
            (stats s)\<lparr>activities_completed := activities_completed (stats s) + 1,
                     total_duration := total_duration (stats s) + (now - timestamp a)\<rparr>
          else if st = FAILED then
            (stats s)\<lparr>activities_failed := activities_failed (stats s) + 1\<rparr>
          else stats s),
        delivered := delivered s @ snd (notify_subscribers (subscribers s) ?f)\<rparr>"
    using end_activity_live[OF en k a, of now st md] n by simp
  define H where "H = drop n (activities_history s @ [?f])"
  have sub': "set H \<subseteq> set (activities_history s) \<union> {?f}"
    using sub by (simp add: H_def)
  have d2: "distinct (map activity_id H)"
    unfolding H_def using dist by (simp only: drop_map[symmetric] distinct_drop)
  have durf: "duration ?f \<noteq> None" by (simp add: finalized_def)
  have hsub: "activity_id ` set H \<subseteq> history_ids s \<union> {k}"
    using sub' idf by (auto simp add: history_ids_def)
  have c1: "dom ((activities s)(k := None)) \<subseteq> D"
    using c by (auto simp add: consistent_def)
  have c2: "activity_id ` set H \<subseteq> D"
    using hsub kD c by (auto simp add: consistent_def)
  have c3: "dom ((activities s)(k := None)) \<inter> activity_id ` set H = {}"
  proof -
    have "dom (activities s) \<inter> history_ids s = {}" using c by (simp add: consistent_def)
    then have "(dom (activities s) - {k}) \<inter> activity_id ` set H = {}" using hsub by blast
    then show ?thesis by simp
  qed
  have c5: "\<forall>k' a'. ((activities s)(k := None)) k' = Some a' \<longrightarrow>
        activity_id a' = k' \<and> duration a' = None \<and> status a' = STARTED"
    using c by (simp add: consistent_def)
  have c6: "\<forall>h \<in> set H. duration h \<noteq> None"
    using sub' durf c by (auto simp add: consistent_def)
  show ?thesis
    unfolding st consistent_def history_ids_def H_def[symmetric]
    using c1 c2 c3 d2 c5 c6 by simp
qed

lemma consistent_start:
  assumes c: "consistent D s" and u: "u \<notin> D"
  shows "consistent (insert u D) (snd (start_activity u now ty nm md p s))"
proof (cases "enabled (config s)")
  case False
  then show ?thesis using c by (auto simp add: start_activity_def consistent_def)
next
  case True
  show ?thesis
    unfolding start_activity_enabled[OF True] 
    using c u by (auto simp add: consistent_def history_ids_def)
qed

lemma consistent_other:
  assumes c: "consistent D s"
  shows "consistent D (add_child_activity p ch s)"
    and "consistent D (update_agent_metrics nm up s)"
    and "consistent D (subscribe_to_activities cb s)"
    and "consistent D (set_enabled b s)"
  using c
  by (auto simp add: consistent_def history_ids_def add_child_activity_def update_agent_metrics_def
      subscribe_to_activities_def set_enabled_def Let_def split: option.splits if_splits)

lemma consistent_init: "consistent {} (init_monitor cfg)"
  by (simp add: consistent_def init_monitor_def history_ids_def)

lemma consistent_step:
  assumes "consistent D s" and "set (drawn_ids [c]) \<inter> D = {}"
  shows "consistent (D \<union> set (drawn_ids [c])) (step c s)"
proof (cases c)
  case (StartActivity u now ty nm md p)
  then show ?thesis using assms consistent_start[of D s u now ty nm md p] by simp
next
  case (EndActivity now k st md)
  then show ?thesis using assms consistent_end[of D s now k st md] by simp
next
  case (AddChildActivity p ch)
  then show ?thesis using assms consistent_other(1)[of D s p ch] by simp
next
  case (UpdateAgentMetrics nm u)
  then show ?thesis using assms consistent_other(2)[of D s nm u] by simp
next
  case (SubscribeToActivities cb)
  then show ?thesis using assms consistent_other(3)[of D s cb] by simp
next
  case (SetEnabled b)
  then show ?thesis using assms consistent_other(4)[of D s b] by simp
qed

lemma drawn_ids_Cons: "drawn_ids (c # cs) = drawn_ids [c] @ drawn_ids cs"
  by (cases c) simp_all

lemma consistent_run:
  "consistent D s \<Longrightarrow> distinct (drawn_ids cs) \<Longrightarrow> set (drawn_ids cs) \<inter> D = {} \<Longrightarrow>
   consistent (D \<union> set (drawn_ids cs)) (run cs s)"
proof (induction cs arbitrary: s D)
  case Nil
  then show ?case by simp
next
  case (Cons c cs)
  have split: "drawn_ids (c # cs) = drawn_ids [c] @ drawn_ids cs" by (rule drawn_ids_Cons)
  have 1: "consistent (D \<union> set (drawn_ids [c])) (step c s)"
    using Cons.prems split by (intro consistent_step) auto
  have 2: "distinct (drawn_ids cs)" using Cons.prems split by simp
  have 3: "set (drawn_ids cs) \<inter> (D \<union> set (drawn_ids [c])) = {}"
    using Cons.prems split by auto
  have "consistent ((D \<union> set (drawn_ids [c])) \<union> set (drawn_ids cs)) (run cs (step c s))"
    using Cons.IH[OF 1 2 3] .
  then show ?case using split by (simp add: Un_assoc)
qed

lemma consistent_reachable:
  "distinct (drawn_ids cs) \<Longrightarrow> consistent (set (drawn_ids cs)) (run cs (init_monitor cfg))"
  using consistent_run[OF consistent_init, of cs cfg] by simp

lemma max_history_step: "max_history (config (step c s)) = max_history (config s)"
proof (cases c)
  case (StartActivity u now ty nm md p)
  then show ?thesis by (simp add: start_activity_def Let_def split: prod.splits)
next
  case (EndActivity now k st md)
  then show ?thesis by (simp add: end_activity_def Let_def split: prod.splits option.splits)
next
  case (AddChildActivity p ch)
  then show ?thesis by (simp add: add_child_activity_def split: option.splits)
next
  case (UpdateAgentMetrics nm u)
  then show ?thesis by (simp add: update_agent_metrics_def Let_def)
next
  case (SubscribeToActivities cb)
  then show ?thesis by (simp add: subscribe_to_activities_def)
next
  case (SetEnabled b)
  then show ?thesis by (simp add: set_enabled_def)
qed

lemma max_history_run: "max_history (config (run cs s)) = max_history (config s)"
  by (induction cs arbitrary: s) (simp_all add: max_history_step)

lemma returned_id_start:
  "returned_id (StartActivity u now ty nm md p) s \<subseteq> (if enabled (config s) then {u} else {})"
  by (auto simp add: start_activity_def Let_def split: prod.splits sum.splits if_splits)

lemma accounted_end:
  assumes c: "consistent D s" and acc: "accounted R s" and cap: "1 \<le> max_history (config s)"
  shows "accounted R (snd (end_activity now k st md s))"
proof (cases "\<not> enabled (config s) \<or> k = [] \<or> activities s k = None")
  case True
  then show ?thesis using acc by (simp add: end_activity_skip)
next
  case False
  then obtain a where en: "enabled (config s)" and k: "k \<noteq> []" and a: "activities s k = Some a"
    by auto
  let ?f = "finalized now st md a"
  let ?H = "last_n (nat (max_history (config s))) (activities_history s @ [?f])"
  have idf: "activity_id ?f = k" using c a by (simp add: consistent_def finalized_def)
  have st: "snd (end_activity now k st md s) =
      s\<lparr>activities := (activities s)(k := None),
        activities_history := ?H,
        stats :=
         (if st = COMPLETED then
            (stats s)\<lparr>activities_completed := activities_completed (stats s) + 1,
                     total_duration := total_duration (stats s) + (now - timestamp a)\<rparr>
          else if st = FAILED then
            (stats s)\<lparr>activities_failed := activities_failed (stats s) + 1\<rparr>
          else stats s),
        delivered := delivered s @ snd (notify_subscribers (subscribers s) ?f)\<rparr>"
    using end_activity_live[OF en k a, of now st md] trim_last_n[OF cap, of "activities_history s" ?f]
    by simp
  have len: "int (length (activities_history s)) \<le> max_history (config s)"
    using acc by (simp add: accounted_def)
  show ?thesis
  proof (cases "int (length (activities_history s)) = max_history (config s)")
    case True
    then have "int (length ?H) = max_history (config s)"
      using cap by (simp add: last_n_def)
    then show ?thesis unfolding st by (simp add: accounted_def)
  next
    case False
    then have H: "?H = activities_history s @ [?f]" using len by (simp add: last_n_def)
    have l2: "int (length (activities_history s @ [?f])) \<le> max_history (config s)"
      using False len by simp
    have "\<forall>x \<in> R. x \<in> dom ((activities s)(k := None)) \<or>
            x \<in> activity_id ` set (activities_history s @ [?f]) \<or>
            int (length (activities_history s @ [?f])) = max_history (config s)"
    proof
      fix x assume "x \<in> R"
      then have "x \<in> dom (activities s) \<or> x \<in> history_ids s" 
        using acc False by (auto simp add: accounted_def)
      then show "x \<in> dom ((activities s)(k := None)) \<or>
            x \<in> activity_id ` set (activities_history s @ [?f]) \<or>
            int (length (activities_history s @ [?f])) = max_history (config s)"
        using idf by (cases "x = k") (auto simp add: history_ids_def)
    qed
    then show ?thesis unfolding st H using l2 by (simp add: accounted_def history_ids_def)
  qed
qed

lemma accounted_start:
  assumes acc: "accounted R s"
  shows "accounted (R \<union> returned_id (StartActivity u now ty nm md p) s)
           (snd (start_activity u now ty nm md p s))"
proof (cases "enabled (config s)")
  case False
  then show ?thesis using acc returned_id_start[of u now ty nm md p s]
    by (simp add: start_activity_def)
next
  case True
  have r: "returned_id (StartActivity u now ty nm md p) s \<subseteq> {u}"
    using returned_id_start[of u now ty nm md p s] True by simp
  show ?thesis
    unfolding start_activity_enabled[OF True]
    using acc r by (auto simp add: accounted_def history_ids_def)
qed

lemma accounted_other:
  assumes c: "accounted R s"
  shows "accounted R (add_child_activity p ch s)"
    and "accounted R (update_agent_metrics nm up s)"
    and "accounted R (subscribe_to_activities cb s)"
    and "accounted R (set_enabled b s)"
  using c
  by (auto simp add: accounted_def history_ids_def add_child_activity_def update_agent_metrics_def
      subscribe_to_activities_def set_enabled_def Let_def split: option.splits if_splits)

lemma accounted_step:
  assumes "consistent D s" and "accounted R s" and "1 \<le> max_history (config s)"
  shows "accounted (R \<union> returned_id c s) (step c s)"
proof (cases c)
  case (StartActivity u now ty nm md p)
  then show ?thesis using assms accounted_start[of R s u now ty nm md p] by simp
next
  case (EndActivity now k st md)
  then show ?thesis using assms accounted_end[of D s R now k st md] by simp
next
  case (AddChildActivity p ch)
  then show ?thesis using assms accounted_other(1)[of R s p ch] by simp
next
  case (UpdateAgentMetrics nm u)
  then show ?thesis using assms accounted_other(2)[of R s nm u] by simp
next
  case (SubscribeToActivities cb)
  then show ?thesis using assms accounted_other(3)[of R s cb] by simp
next
  case (SetEnabled b)
  then show ?thesis using assms accounted_other(4)[of R s b] by simp
qed

lemma accounted_run:
  "consistent D s \<Longrightarrow> accounted R s \<Longrightarrow> 1 \<le> max_history (config s) \<Longrightarrow>
   distinct (drawn_ids cs) \<Longrightarrow> set (drawn_ids cs) \<inter> D = {} \<Longrightarrow>
   accounted (R \<union> returned_ids cs s) (run cs s)"
proof (induction cs arbitrary: s D R)
  case Nil
  then show ?case by simp
next
  case (Cons c cs)
  have split: "drawn_ids (c # cs) = drawn_ids [c] @ drawn_ids cs" by (rule drawn_ids_Cons)
  have 1: "consistent (D \<union> set (drawn_ids [c])) (step c s)"
    using Cons.prems split by (intro consistent_step) auto
  have 2: "accounted (R \<union> returned_id c s) (step c s)"
    using Cons.prems by (intro accounted_step[of D]) auto
  have 3: "1 \<le> max_history (config (step c s))"
    using Cons.prems by (simp add: max_history_step)
  have 4: "distinct (drawn_ids cs)" using Cons.prems split by simp
  have 5: "set (drawn_ids cs) \<inter> (D \<union> set (drawn_ids [c])) = {}"
    using Cons.prems split by auto
  show ?case using Cons.IH[OF 1 2 3 4 5] by (simp add: Un_assoc)
qed

lemma accounted_init: "0 \<le> max_history cfg \<Longrightarrow> accounted {} (init_monitor cfg)"
  by (simp add: accounted_def init_monitor_def)

section \<open>Live set and history\<close>

lemma last_n_snoc: "1 \<le> k \<Longrightarrow> last_n k (xs @ [x]) \<noteq> [] \<and> last (last_n k (xs @ [x])) = x"
  by (simp add: last_n_def)

lemma leaves_live:
  assumes c: "consistent D s" and x: "x \<in> dom (activities s)"
    and gone: "x \<notin> dom (activities (step c s))"
  shows "(\<exists>now st md. c = EndActivity now x st md) \<and>
         (1 \<le> max_history (config s) \<longrightarrow> x \<in> history_ids (step c s))"
proof (cases c)
  case (StartActivity u now ty nm md p)
  then show ?thesis using x gone
    by (auto simp add: start_activity_def Let_def split: prod.splits if_splits)
next
  case (EndActivity now k st md)
  show ?thesis
  proof (cases "\<not> enabled (config s) \<or> k = [] \<or> activities s k = None")
    case True
    then show ?thesis using x gone EndActivity by (simp add: end_activity_skip)
  next
    case False
    then obtain a where en: "enabled (config s)" and k: "k \<noteq> []" and a: "activities s k = Some a"
      by auto
    let ?f = "finalized now st md a"
    have idf: "activity_id ?f = k" using c a by (simp add: consistent_def finalized_def)
    have xk: "x = k" using x gone EndActivity end_activity_live[OF en k a, of now st md]
      by (auto split: if_splits)
    have "x \<in> history_ids (step c s)" if cap: "1 \<le> max_history (config s)"
    proof -
      have h: "activities_history (step c s) = last_n (nat (max_history (config s))) (activities_history s @ [?f])"
        using EndActivity end_activity_live[OF en k a, of now st md]
          trim_last_n[OF cap, of "activities_history s" ?f] by simp
      have "1 \<le> nat (max_history (config s))" using cap by simp
      from last_n_snoc[OF this, of "activities_history s" ?f]
      have "?f \<in> set (activities_history (step c s))" unfolding h
        using last_in_set by metis
      then show ?thesis using idf xk by (auto simp add: history_ids_def)
    qed
    then show ?thesis using xk EndActivity by simp
  qed
next
  case (AddChildActivity p ch)
  then show ?thesis using x gone
    by (auto simp add: add_child_activity_def split: option.splits if_splits)
next
  case (UpdateAgentMetrics nm u)
  then show ?thesis using x gone by (auto simp add: update_agent_metrics_def Let_def split: if_splits)
next
  case (SubscribeToActivities cb)
  then show ?thesis using x gone by (auto simp add: subscribe_to_activities_def)
next
  case (SetEnabled b)
  then show ?thesis using x gone by (auto simp add: set_enabled_def)
qed

text \<open>
  Claim C1, as the code has it. In every state a run reaches from the initial state,
  when the uuids drawn are pairwise different: no id is both live and in the history,
  and no id is twice in the history; with a cap of at least 1, an id that
  \<^verbatim>\<open>start_activity\<close> handed back is live, or in the history, or the history is full
  (only the trimming of a full history takes an id out of both); and an id leaves the
  live set only by an \<^verbatim>\<open>end_activity\<close> call on that id, which (with a cap of at least
  1) puts it into the history.
\<close>

theorem live_history_exclusive:
  assumes "distinct (drawn_ids cs)"
  shows "dom (activities (run cs (init_monitor cfg))) \<inter> history_ids (run cs (init_monitor cfg)) = {} \<and>
     distinct (map activity_id (activities_history (run cs (init_monitor cfg)))) \<and>
     (1 \<le> max_history cfg \<longrightarrow>
        (\<forall>x \<in> returned_ids cs (init_monitor cfg).
           x \<in> dom (activities (run cs (init_monitor cfg))) \<or>
           x \<in> history_ids (run cs (init_monitor cfg)) \<or>
           int (length (activities_history (run cs (init_monitor cfg)))) = max_history cfg)) \<and>
     (\<forall>x c. x \<in> dom (activities (run cs (init_monitor cfg))) \<and>
            x \<notin> dom (activities (step c (run cs (init_monitor cfg)))) \<longrightarrow>
            (\<exists>now st md. c = EndActivity now x st md) \<and>
            (1 \<le> max_history cfg \<longrightarrow> x \<in> history_ids (step c (run cs (init_monitor cfg)))))"
proof -
  let ?s = "run cs (init_monitor cfg)"
  have con: "consistent (set (drawn_ids cs)) ?s"
    using assms by (rule consistent_reachable)
  have mh: "max_history (config ?s) = max_history cfg"
    by (simp add: max_history_run init_monitor_def)
  have a: "dom (activities ?s) \<inter> history_ids ?s = {}"
    using con by (simp add: consistent_def)
  have b: "distinct (map activity_id (activities_history ?s))"
    using con by (simp add: consistent_def)
  have c: "\<forall>x \<in> returned_ids cs (init_monitor cfg).
           x \<in> dom (activities ?s) \<or> x \<in> history_ids ?s \<or>
           int (length (activities_history ?s)) = max_history cfg" if cap: "1 \<le> max_history cfg"
  proof -
    have "accounted ({} \<union> returned_ids cs (init_monitor cfg)) ?s"
      using assms cap
      by (intro accounted_run[OF consistent_init accounted_init]) (simp_all add: init_monitor_def)
    then show ?thesis using mh by (simp add: accounted_def)
  qed
  have d: "\<forall>x c. x \<in> dom (activities ?s) \<and> x \<notin> dom (activities (step c ?s)) \<longrightarrow>
            (\<exists>now st md. c = EndActivity now x st md) \<and>
            (1 \<le> max_history cfg \<longrightarrow> x \<in> history_ids (step c ?s))"
    using leaves_live[OF con] mh by metis
  show ?thesis using a b c d by blast
qed

text \<open>
  The claim as stated fails: with a cap of 1, after two activities were started and
  ended, the first id was handed back by \<^verbatim>\<open>start_activity\<close> and is neither live nor in
  the history.
\<close>

theorem live_history_exclusive_counterexample:
  "''u1'' \<in> returned_ids eviction_run (capped_monitor 1) \<and>
   ''u1'' \<notin> dom (activities (run eviction_run (capped_monitor 1))) \<and>
   ''u1'' \<notin> history_ids (run eviction_run (capped_monitor 1))"
  by (simp add: eviction_run_def capped_monitor_def init_monitor_def default_config_def
      start_fetch_def start_activity_def end_activity_def Let_def history_ids_def py_slice_from_def)

theorem live_history_exclusive_witness:
  "distinct (drawn_ids eviction_run) \<and>
   dom (activities (run eviction_run (capped_monitor 1))) \<inter> history_ids (run eviction_run (capped_monitor 1)) = {} \<and>
   ''u2'' \<in> returned_ids eviction_run (capped_monitor 1) \<and>
   ''u2'' \<in> history_ids (run eviction_run (capped_monitor 1)) \<and>
   int (length (activities_history (run eviction_run (capped_monitor 1)))) = 1"
  using live_history_exclusive [of eviction_run "default_config\<lparr>max_history := 1\<rparr>"]
  by (simp add: eviction_run_def capped_monitor_def init_monitor_def default_config_def
      start_fetch_def start_activity_def end_activity_def Let_def history_ids_def py_slice_from_def)

section \<open>The duration of an activity\<close>

lemma end_activity_last:
  assumes en: "enabled (config s)" and k: "k \<noteq> []" and a: "activities s k = Some a"
    and cap: "0 \<le> max_history (config s)"
  shows "activities_history (snd (end_activity now k st md s)) \<noteq> [] \<and>
         last (activities_history (snd (end_activity now k st md s))) = finalized now st md a"
proof (cases "max_history (config s) = 0")
  case True
  then show ?thesis
    using end_activity_live[OF en k a, of now st md] by (simp add: py_slice_from_zero)
next
  case False
  then have c1: "1 \<le> max_history (config s)" using cap by simp
  then have n1: "1 \<le> nat (max_history (config s))" by simp
  have "activities_history (snd (end_activity now k st md s)) =
          last_n (nat (max_history (config s))) (activities_history s @ [finalized now st md a])"
    using end_activity_live[OF en k a, of now st md]
      trim_last_n[OF c1, of "activities_history s" "finalized now st md a"] by simp
  then show ?thesis using last_n_snoc[OF n1, of "activities_history s" "finalized now st md a"]
    by simp
qed

lemma end_activity_removes:
  assumes en: "enabled (config s)" and k: "k \<noteq> []" and a: "activities s k = Some a"
  shows "activities (snd (end_activity now k st md s)) k = None"
  using end_activity_live[OF en k a, of now st md] by simp

text \<open>
  Claim C4. In every state a run reaches from the initial state (the uuids drawn being
  pairwise different): a live activity has no duration (and status \<^verbatim>\<open>STARTED\<close>), and a
  record of the history has one; \<^verbatim>\<open>start_activity\<close> stores the clock's value as the
  timestamp, with no duration; \<^verbatim>\<open>end_activity\<close> on a live id takes the id out of the live
  set and (with a cap that is not negative) leaves as the last record of the history
  the activity with the status given and the duration \<open>now - timestamp\<close>; and a second
  \<^verbatim>\<open>end_activity\<close> on that id, with whatever clock, status and metadata, returns
  normally and leaves the whole state, that record included, as it was.
\<close>

theorem duration_assigned_once:
  assumes "distinct (drawn_ids cs)"
  shows "(\<forall>j b. activities (run cs (init_monitor cfg)) j = Some b \<longrightarrow>
            duration b = None \<and> status b = STARTED) \<and>
     (\<forall>h \<in> set (activities_history (run cs (init_monitor cfg))). duration h \<noteq> None) \<and>
     (enabled (config (run cs (init_monitor cfg))) \<longrightarrow>
        (\<exists>b. activities (snd (start_activity u t ty nm smd p (run cs (init_monitor cfg)))) u = Some b \<and>
             timestamp b = t \<and> duration b = None)) \<and>
     (enabled (config (run cs (init_monitor cfg))) \<and> k \<noteq> [] \<and>
      activities (run cs (init_monitor cfg)) k = Some a \<longrightarrow>
        activities (snd (end_activity now k st md (run cs (init_monitor cfg)))) k = None \<and>
        (0 \<le> max_history cfg \<longrightarrow>
           activities_history (snd (end_activity now k st md (run cs (init_monitor cfg)))) \<noteq> [] \<and>
           last (activities_history (snd (end_activity now k st md (run cs (init_monitor cfg)))))
             = finalized now st md a \<and>
           duration (last (activities_history (snd (end_activity now k st md (run cs (init_monitor cfg))))))
             = Some (now - timestamp a)) \<and>
        end_activity now' k st' md' (snd (end_activity now k st md (run cs (init_monitor cfg))))
          = (Inr (), snd (end_activity now k st md (run cs (init_monitor cfg)))))"
proof -
  let ?s = "run cs (init_monitor cfg)"
  have con: "consistent (set (drawn_ids cs)) ?s"
    using assms by (rule consistent_reachable)
  have mh: "max_history (config ?s) = max_history cfg"
    by (simp add: max_history_run init_monitor_def)
  have 1: "\<forall>j b. activities ?s j = Some b \<longrightarrow> duration b = None \<and> status b = STARTED"
    using con by (simp add: consistent_def)
  have 2: "\<forall>h \<in> set (activities_history ?s). duration h \<noteq> None"
    using con by (simp add: consistent_def)
  have 3: "\<exists>b. activities (snd (start_activity u t ty nm smd p ?s)) u = Some b \<and>
             timestamp b = t \<and> duration b = None" if "enabled (config ?s)"
    using start_activity_enabled[OF that, of u t ty nm smd p] by simp
  have 4: "activities (snd (end_activity now k st md ?s)) k = None \<and>
        (0 \<le> max_history cfg \<longrightarrow>
           activities_history (snd (end_activity now k st md ?s)) \<noteq> [] \<and>
           last (activities_history (snd (end_activity now k st md ?s))) = finalized now st md a \<and>
           duration (last (activities_history (snd (end_activity now k st md ?s))))
             = Some (now - timestamp a)) \<and>
        end_activity now' k st' md' (snd (end_activity now k st md ?s))
          = (Inr (), snd (end_activity now k st md ?s))"
    if h: "enabled (config ?s) \<and> k \<noteq> [] \<and> activities ?s k = Some a"
  proof -
    from h have en: "enabled (config ?s)" and k: "k \<noteq> []" and a: "activities ?s k = Some a"
      by simp_all
    have r: "activities (snd (end_activity now k st md ?s)) k = None"
      using end_activity_removes[OF en k a] .
    have l: "activities_history (snd (end_activity now k st md ?s)) \<noteq> [] \<and>
           last (activities_history (snd (end_activity now k st md ?s))) = finalized now st md a"
      if "0 \<le> max_history cfg"
      using end_activity_last[OF en k a, of now st md] that mh by simp
    have d: "duration (finalized now st md a) = Some (now - timestamp a)"
      by (simp add: finalized_def)
    have e: "end_activity now' k st' md' (snd (end_activity now k st md ?s))
          = (Inr (), snd (end_activity now k st md ?s))"
      using r by (intro end_activity_skip) simp
    show ?thesis using r l d e by simp
  qed
  show ?thesis using 1 2 3 4 by blast
qed

theorem duration_assigned_once_witness:
  "distinct (drawn_ids [start_fetch ''u1'' 1]) \<and>
   enabled (config (run [start_fetch ''u1'' 1] on_monitor)) \<and>
   (\<exists>a. activities (run [start_fetch ''u1'' 1] on_monitor) ''u1'' = Some a \<and> duration a = None \<and>
      duration (last (activities_history
        (snd (end_activity 3 ''u1'' COMPLETED None (run [start_fetch ''u1'' 1] on_monitor))))) = Some 2) \<and>
   end_activity 5 ''u1'' FAILED None
       (snd (end_activity 3 ''u1'' COMPLETED None (run [start_fetch ''u1'' 1] on_monitor)))
     = (Inr (), snd (end_activity 3 ''u1'' COMPLETED None (run [start_fetch ''u1'' 1] on_monitor)))"
proof -
  let ?s = "run [start_fetch ''u1'' 1] on_monitor"
  let ?a = "\<lparr>activity_id = ''u1'', activity_type = TOOL_EXECUTION, name = ''fetch'', timestamp = 1,
             status = STARTED, metadata = Map.empty, duration = None, parent_id = None,
             children = []\<rparr>"
  have d: "distinct (drawn_ids [start_fetch ''u1'' 1])" by (simp add: start_fetch_def)
  have live: "activities ?s ''u1'' = Some ?a"
    by (simp add: start_fetch_def on_monitor_def init_monitor_def default_config_def
        start_activity_def Let_def)
  have en: "enabled (config ?s)"
    by (simp add: start_fetch_def on_monitor_def init_monitor_def default_config_def
        start_activity_def Let_def)
  have mh: "0 \<le> max_history default_config" by (simp add: default_config_def)
  note th = duration_assigned_once [OF d, where cfg = default_config and k = "''u1''" and a = ?a
      and now = 3 and st = COMPLETED and md = None and now' = 5 and st' = FAILED and md' = None
      and u = "''u2''" and t = 4 and ty = LLM_CALL and nm = "''ask''" and smd = None and p = None,
      folded on_monitor_def]
  have f: "duration (last (activities_history (snd (end_activity 3 ''u1'' COMPLETED None ?s)))) = Some 2"
    using th live en mh by (simp add: finalized_def)
  have g: "end_activity 5 ''u1'' FAILED None (snd (end_activity 3 ''u1'' COMPLETED None ?s))
     = (Inr (), snd (end_activity 3 ''u1'' COMPLETED None ?s))"
    using th live en mh by simp
  show ?thesis using d en live f g by simp
qed

section \<open>Ending an activity: the counters\<close>

text \<open>
  Claim C10. Ending a live activity while the store is enabled changes the counters by
  the status alone: \<^verbatim>\<open>COMPLETED\<close> adds one to \<^verbatim>\<open>activities_completed\<close> and the duration
  to \<^verbatim>\<open>total_duration\<close>, \<^verbatim>\<open>FAILED\<close> adds one to \<^verbatim>\<open>activities_failed\<close> and nothing else,
  any other status leaves all four counters as they were. With status \<^verbatim>\<open>CANCELLED\<close> the
  counters are unchanged, the id leaves the live set, and (with a cap that is not
  negative) the last record of the history is the activity with status \<^verbatim>\<open>CANCELLED\<close>
  and its duration assigned.
\<close>

theorem cancelled_end_frame:
  assumes "enabled (config s)" and "k \<noteq> []" and "activities s k = Some a"
  shows "stats (snd (end_activity now k st md s)) =
           (if st = COMPLETED then
              (stats s)\<lparr>activities_completed := activities_completed (stats s) + 1,
                       total_duration := total_duration (stats s) + (now - timestamp a)\<rparr>
            else if st = FAILED then
              (stats s)\<lparr>activities_failed := activities_failed (stats s) + 1\<rparr>
            else stats s) \<and>
         stats (snd (end_activity now k CANCELLED md s)) = stats s \<and>
         activities (snd (end_activity now k CANCELLED md s)) k = None \<and>
         (0 \<le> max_history (config s) \<longrightarrow>
            activities_history (snd (end_activity now k CANCELLED md s)) \<noteq> [] \<and>
            last (activities_history (snd (end_activity now k CANCELLED md s)))
              = finalized now CANCELLED md a \<and>
            status (finalized now CANCELLED md a) = CANCELLED \<and>
            duration (finalized now CANCELLED md a) = Some (now - timestamp a))"
proof -
  have 1: "stats (snd (end_activity now k st md s)) =
           (if st = COMPLETED then
              (stats s)\<lparr>activities_completed := activities_completed (stats s) + 1,
                       total_duration := total_duration (stats s) + (now - timestamp a)\<rparr>
            else if st = FAILED then
              (stats s)\<lparr>activities_failed := activities_failed (stats s) + 1\<rparr>
            else stats s)"
    using end_activity_live[OF assms, of now st md] by simp
  have 2: "stats (snd (end_activity now k CANCELLED md s)) = stats s"
    using end_activity_live[OF assms, of now CANCELLED md] by simp
  have 3: "activities (snd (end_activity now k CANCELLED md s)) k = None"
    using end_activity_removes[OF assms] .
  have 4: "activities_history (snd (end_activity now k CANCELLED md s)) \<noteq> [] \<and>
            last (activities_history (snd (end_activity now k CANCELLED md s)))
              = finalized now CANCELLED md a" if "0 \<le> max_history (config s)"
    using end_activity_last[OF assms that] .
  have 5: "status (finalized now CANCELLED md a) = CANCELLED \<and>
            duration (finalized now CANCELLED md a) = Some (now - timestamp a)"
    by (simp add: finalized_def)
  show ?thesis using 1 2 3 4 5 by simp
qed

theorem cancelled_end_frame_witness:
  "enabled (config (run [start_fetch ''u1'' 1] on_monitor)) \<and>
   stats (snd (end_activity 3 ''u1'' CANCELLED None (run [start_fetch ''u1'' 1] on_monitor)))
     = \<lparr>activities_started = 1, activities_completed = 0, activities_failed = 0,
        total_duration = 0\<rparr> \<and>
   stats (snd (end_activity 3 ''u1'' COMPLETED None (run [start_fetch ''u1'' 1] on_monitor)))
     = \<lparr>activities_started = 1, activities_completed = 1, activities_failed = 0,
        total_duration = 2\<rparr> \<and>
   activities_history (snd (end_activity 3 ''u1'' CANCELLED None (run [start_fetch ''u1'' 1] on_monitor)))
     \<noteq> []"
proof -
  let ?s = "run [start_fetch ''u1'' 1] on_monitor"
  let ?a = "\<lparr>activity_id = ''u1'', activity_type = TOOL_EXECUTION, name = ''fetch'', timestamp = 1,
             status = STARTED, metadata = Map.empty, duration = None, parent_id = None,
             children = []\<rparr>"
  have s: "?s = on_monitor\<lparr>activities := [''u1'' \<mapsto> ?a],
      stats := \<lparr>activities_started = 1, activities_completed = 0, activities_failed = 0,
                total_duration = 0\<rparr>\<rparr>"
    by (simp add: start_fetch_def on_monitor_def init_monitor_def default_config_def
        start_activity_def Let_def)
  have en: "enabled (config ?s)" and k: "''u1'' \<noteq> []" and live: "activities ?s ''u1'' = Some ?a"
    and mh: "0 \<le> max_history (config ?s)"
    unfolding s by (simp_all add: on_monitor_def init_monitor_def default_config_def)
  note th1 = cancelled_end_frame [OF en k live, of 3 COMPLETED None]
  note th2 = cancelled_end_frame [OF en k live, of 3 CANCELLED None]
  have st: "stats ?s = \<lparr>activities_started = 1, activities_completed = 0, activities_failed = 0,
                total_duration = 0\<rparr>"
    unfolding s by simp
  have a: "stats (snd (end_activity 3 ''u1'' CANCELLED None ?s)) = stats ?s"
    using th2 by simp
  have b: "stats (snd (end_activity 3 ''u1'' COMPLETED None ?s)) =
      (stats ?s)\<lparr>activities_completed := activities_completed (stats ?s) + 1,
                  total_duration := total_duration (stats ?s) + (3 - 1)\<rparr>"
    using th1 by simp
  have c: "activities_history (snd (end_activity 3 ''u1'' CANCELLED None ?s)) \<noteq> []"
    using th2 mh by simp
  show ?thesis using en a b c unfolding st by simp
qed

section \<open>Caller misuse\<close>

text \<open>
  Claim C6. \<^verbatim>\<open>end_activity\<close> with the empty id, or with an id that is not in the live
  set, returns normally (no exception reaches the caller) and leaves the whole state as
  it was. \<^verbatim>\<open>add_child_activity\<close> leaves the whole state as it was when the parent or the
  child is not in the live set (a parent that has gone to the history included): it
  changes the state only when both ids are live.
\<close>

theorem misuse_is_noop:
  "(act_id = [] \<or> activities s act_id = None \<longrightarrow>
      end_activity now act_id st md s = (Inr (), s)) \<and>
   (activities s parent = None \<or> activities s child = None \<longrightarrow>
      add_child_activity parent child s = s) \<and>
   (add_child_activity parent child s \<noteq> s \<longrightarrow>
      parent \<in> dom (activities s) \<and> child \<in> dom (activities s))"
  by (auto simp add: end_activity_def add_child_activity_def split: option.splits)

theorem misuse_is_noop_witness:
  "activities ended_u1 ''u1'' = None \<and>
   ''u2'' \<in> dom (activities ended_u1) \<and>
   end_activity 4 ''u1'' FAILED None ended_u1 = (Inr (), ended_u1) \<and>
   end_activity 4 [] FAILED None ended_u1 = (Inr (), ended_u1) \<and>
   add_child_activity ''u1'' ''u2'' ended_u1 = ended_u1"
proof -
  have a: "activities ended_u1 ''u1'' = None" and b: "''u2'' \<in> dom (activities ended_u1)"
    by (simp_all add: ended_u1_def start_fetch_def on_monitor_def init_monitor_def default_config_def
        start_activity_def end_activity_def Let_def)
  show ?thesis
    using a b misuse_is_noop [of "''u1''" ended_u1 4 FAILED None "''u1''" "''u2''"]
      misuse_is_noop [of "[]" ended_u1 4 FAILED None "''u1''" "''u2''"]
    by simp
qed

section \<open>The moving average of the response time\<close>

text \<open>
  Claim C2. With the store and the agent metrics enabled, a call of
  \<^verbatim>\<open>update_agent_metrics\<close> whose update carries a response time \<open>x\<close> leaves the entity
  with the average \<open>(old * (n - 1) + x) / n\<close>, where \<open>old\<close> is the entity's average
  before the call (0 for an entity the call creates) and \<open>n\<close> is the number of
  completed plus failed tasks after the increments of this call; when \<open>n\<close> is 0 the
  average is unchanged. Averages are exact reals.
\<close>

theorem moving_average_step:
  assumes "enabled (config s)" and "enable_agent_metrics (config s)"
    and "response_time u = Some x"
  shows "\<exists>m'. agent_metrics (update_agent_metrics nm u s) nm = Some m' \<and>
     (let m = (case agent_metrics s nm of None \<Rightarrow> new_agent_metrics nm | Some m \<Rightarrow> m);
          n = tasks_completed m + (if task_completed u then 1 else 0)
            + tasks_failed m + (if task_failed u then 1 else 0)
      in tasks_completed m' + tasks_failed m' = n \<and>
         average_response_time m' =
           (if n > 0 then (average_response_time m * of_int (n - 1) + x) / of_int n
            else average_response_time m))"
  using assms
  by (simp add: update_agent_metrics_def apply_metrics_update_def Let_def add.commute add.left_commute
         split: option.splits)

theorem moving_average_step_witness:
  "enabled (config on_monitor) \<and> enable_agent_metrics (config on_monitor) \<and>
   (\<exists>m'. agent_metrics (update_agent_metrics ''agent'' (sample_update True 3) on_monitor) ''agent'' = Some m' \<and>
        tasks_completed m' + tasks_failed m' = 1 \<and> average_response_time m' = 3) \<and>
   (\<exists>m'. agent_metrics (update_agent_metrics ''agent'' (sample_update False 3) on_monitor) ''agent'' = Some m' \<and>
        tasks_completed m' + tasks_failed m' = 0 \<and> average_response_time m' = 0)"
  using moving_average_step [of on_monitor "sample_update True 3" 3 "''agent''"]
    moving_average_step [of on_monitor "sample_update False 3" 3 "''agent''"]
  by (simp add: on_monitor_def init_monitor_def default_config_def new_agent_metrics_def
      sample_update_def)

section \<open>Subscribers\<close>

lemma notify_base_exception_propagates:
  "sub_call sub a = RaisesBaseException \<Longrightarrow>
   notify_subscribers (sub # rest) a = (Inl PropagatedBaseException, [(sub_tag sub, a)])"
  by simp

text \<open>
  Claim C7, as the code has it. The loop catches \<^verbatim>\<open>Exception\<close> and nothing wider. For
  every activity and every list of subscribers, each of which returns or raises an
  \<^verbatim>\<open>Exception\<close> when called with the activity: \<^verbatim>\<open>_notify_subscribers\<close> returns normally,
  and the calls it makes are one call of each subscriber with that activity, in the
  order of the list, whichever of them raise. The list is in registration order:
  \<^verbatim>\<open>subscribe_to_activities\<close> appends.
\<close>

theorem notify_isolates_subscribers:
  assumes "\<forall>sub \<in> set subs. sub_call sub a \<noteq> RaisesBaseException"
  shows "notify_subscribers subs a = (Inr (), map (\<lambda>sub. (sub_tag sub, a)) subs) \<and>
         subscribers (subscribe_to_activities cb s) = subscribers s @ [cb]"
proof -
  have "notify_subscribers subs a = (Inr (), map (\<lambda>sub. (sub_tag sub, a)) subs)"
    using assms by (induction subs) (auto split: callback_outcome.splits)
  then show ?thesis by (simp add: subscribe_to_activities_def)
qed

theorem notify_isolates_subscribers_witness:
  "sub_call failing_subscriber fetch_activity = RaisesException \<and>
   sub_call succeeding_subscriber fetch_activity = Returns \<and>
   notify_subscribers [failing_subscriber, succeeding_subscriber] fetch_activity
     = (Inr (), [(0, fetch_activity), (1, fetch_activity)])"
  using notify_isolates_subscribers
    [of "[failing_subscriber, succeeding_subscriber]" fetch_activity]
  by (simp add: failing_subscriber_def succeeding_subscriber_def)

text \<open>
  The claim as stated fails: an exception that is no \<^verbatim>\<open>Exception\<close> is not swallowed. With
  a subscriber whose call ends in a \<^verbatim>\<open>KeyboardInterrupt\<close> registered before one that
  returns, \<^verbatim>\<open>_notify_subscribers\<close> lets the exception through to its caller, and the
  only call made is the first: the second subscriber does not receive the event.
\<close>

theorem notify_isolates_subscribers_counterexample:
  "notify_subscribers [interrupted_subscriber, succeeding_subscriber] fetch_activity
     = (Inl PropagatedBaseException, [(2, fetch_activity)])"
  by (simp add: interrupted_subscriber_def)

section \<open>Recent activities\<close>

text \<open>With a limit of at least 1, \<^verbatim>\<open>get_recent_activities\<close> returns the last \<open>limit\<close>
  records of the history, in the history's order, and no more than \<open>limit\<close> of them.\<close>

lemma get_recent_activities_positive:
  "1 \<le> limit \<Longrightarrow>
   get_recent_activities limit s = last_n (nat limit) (activities_history s) \<and>
   int (length (get_recent_activities limit s)) \<le> limit"
  by (auto simp add: get_recent_activities_def py_slice_from_neg last_n_def)

text \<open>
  Claim C9 fails at the limit 0, which is not negative: \<^verbatim>\<open>self.activities_history[-0:]\<close>
  is the whole list, so \<^verbatim>\<open>get_recent_activities(0)\<close> returns the whole history and not
  the empty list. After two activities were started and ended it returns two records.
\<close>

theorem get_recent_activities_zero_limit:
  "get_recent_activities 0 s = activities_history s"
  by (simp add: get_recent_activities_def py_slice_from_zero)

theorem get_recent_activities_zero_limit_witness:
  "length (get_recent_activities 0 (run eviction_run on_monitor)) = 2"
  using get_recent_activities_zero_limit [of "run eviction_run on_monitor"]
  by (simp add: eviction_run_def on_monitor_def init_monitor_def default_config_def
      start_fetch_def start_activity_def end_activity_def Let_def py_slice_from_def)

section \<open>The bounded history\<close>

lemma ended_records_Cons:
  "ended_records ((now, k, st, md) # es) s =
    (case activities s k of None \<Rightarrow> [] | Some a \<Rightarrow> [finalized now st md a]) @ ended_records es s"
  by (simp add: ended_records_def)

lemma ended_records_remove:
  "k \<notin> call_id ` set es \<Longrightarrow> activities s1 = (activities s)(k := None) \<Longrightarrow>
   ended_records es s1 = ended_records es s"
  by (induction es) (auto simp add: ended_records_def call_id_def split: prod.splits)

lemma length_ended_records:
  "\<forall>e \<in> set es. call_id e \<in> dom (activities s) \<Longrightarrow> length (ended_records es s) = length es"
  by (induction es) (auto simp add: ended_records_def call_id_def split: prod.splits)

lemma end_activities_history:
  "enabled (config s) \<Longrightarrow> 1 \<le> max_history (config s) \<Longrightarrow>
   distinct (map call_id es) \<Longrightarrow>
   \<forall>e \<in> set es. call_id e \<noteq> [] \<and> call_id e \<in> dom (activities s) \<Longrightarrow>
   int (length (activities_history s)) \<le> max_history (config s) \<or> es \<noteq> [] \<Longrightarrow>
   activities_history (end_activities es s) =
     last_n (nat (max_history (config s))) (activities_history s @ ended_records es s)"
proof (induction es arbitrary: s)
  case Nil
  then show ?case by (simp add: ended_records_def last_n_def)
next
  case (Cons e es)
  obtain now k st md where e: "e = (now, k, st, md)" by (cases e) auto
  from Cons.prems e obtain a where k: "k \<noteq> []" and a: "activities s k = Some a"
    by (auto simp add: call_id_def)
  let ?s1 = "snd (end_activity now k st md s)"
  let ?cap = "nat (max_history (config s))"
  note live = end_activity_live[OF Cons.prems(1) k a, of now st md]
  have h1: "activities_history ?s1 = last_n ?cap (activities_history s @ [finalized now st md a])"
    using live trim_last_n[OF Cons.prems(2), of "activities_history s" "finalized now st md a"] by simp
  have en1: "enabled (config ?s1)" using live Cons.prems(1) by simp
  have cap1: "max_history (config ?s1) = max_history (config s)" using live by simp
  have act1: "activities ?s1 = (activities s)(k := None)" using live by simp
  have knot: "k \<notin> call_id ` set es" using Cons.prems(3) e by (auto simp add: call_id_def)
  have d1: "distinct (map call_id es)" using Cons.prems(3) by simp
  have l1: "\<forall>e \<in> set es. call_id e \<noteq> [] \<and> call_id e \<in> dom (activities ?s1)"
    using Cons.prems(4) knot act1 by auto
  have len1: "int (length (activities_history ?s1)) \<le> max_history (config ?s1)"
    unfolding h1 cap1 using Cons.prems(2) by (simp add: last_n_def)
  have "activities_history (end_activities es ?s1) =
      last_n (nat (max_history (config ?s1))) (activities_history ?s1 @ ended_records es ?s1)"
    using Cons.IH[OF en1 _ d1 l1] len1 cap1 Cons.prems(2) by simp
  also have "\<dots> = last_n ?cap (last_n ?cap (activities_history s @ [finalized now st md a]) @ ended_records es s)"
    using h1 cap1 ended_records_remove[OF knot act1] by simp
  also have "\<dots> = last_n ?cap ((activities_history s @ [finalized now st md a]) @ ended_records es s)"
    by (rule last_n_last_n)
  finally show ?case using e a by (simp add: ended_records_Cons)
qed

lemma last_n_append_long: "k \<le> length ys \<Longrightarrow> last_n k (xs @ ys) = last_n k ys"
  by (simp add: last_n_def)

text \<open>
  With the store enabled and a cap of at least 1: after \<^verbatim>\<open>end_activity\<close> calls on
  pairwise different live ids, at least as many as the cap, the history is the last
  \<open>max_history\<close> of the records these calls left, in the order of the calls, and its
  length is \<open>max_history\<close>.
\<close>

lemma history_keeps_last_cap:
  assumes "enabled (config s)" and "1 \<le> max_history (config s)"
    and "distinct (map call_id es)"
    and "\<forall>e \<in> set es. call_id e \<noteq> [] \<and> call_id e \<in> dom (activities s)"
    and "max_history (config s) \<le> int (length es)"
  shows "activities_history (end_activities es s) =
           last_n (nat (max_history (config s))) (ended_records es s) \<and>
         int (length (activities_history (end_activities es s))) = max_history (config s)"
proof -
  have ne: "es \<noteq> []" using assms(2,5) by auto
  have len: "length (ended_records es s) = length es"
    using assms(4) by (intro length_ended_records) simp
  have le: "nat (max_history (config s)) \<le> length (ended_records es s)"
    using assms(5) len by simp
  have "activities_history (end_activities es s) =
     last_n (nat (max_history (config s))) (activities_history s @ ended_records es s)"
    using end_activities_history[OF assms(1-4)] ne by simp
  then have h: "activities_history (end_activities es s) =
           last_n (nat (max_history (config s))) (ended_records es s)"
    using last_n_append_long[OF le] by simp
  show ?thesis unfolding h using le assms(2) by (simp add: last_n_def)
qed

text \<open>
  Claim C3 fails at the cap 0: the trimming is \<^verbatim>\<open>activities_history[-0:]\<close>, the whole
  list, so with \<^verbatim>\<open>max_history = 0\<close> every \<^verbatim>\<open>end_activity\<close> on a live id makes the history
  one record longer and nothing is ever evicted. After two activities were started and
  ended the history has length 2, not 0.
\<close>

theorem zero_cap_never_trims:
  assumes "enabled (config s)" and "k \<noteq> []" and "activities s k = Some a"
    and "max_history (config s) = 0"
  shows "activities_history (snd (end_activity now k st md s)) =
           activities_history s @ [finalized now st md a]"
  using end_activity_live[OF assms(1-3), of now st md] assms(4)
  by (simp add: py_slice_from_zero)

theorem zero_cap_never_trims_witness:
  "max_history (config (capped_monitor 0)) = 0 \<and>
   length (activities_history (run eviction_run (capped_monitor 0))) = 2"
proof -
  let ?s1 = "run [start_fetch ''u1'' 0, start_fetch ''u2'' 1] (capped_monitor 0)"
  let ?a1 = "\<lparr>activity_id = ''u1'', activity_type = TOOL_EXECUTION, name = ''fetch'', timestamp = 0,
             status = STARTED, metadata = Map.empty, duration = None, parent_id = None,
             children = []\<rparr>"
  let ?a2 = "\<lparr>activity_id = ''u2'', activity_type = TOOL_EXECUTION, name = ''fetch'', timestamp = 1,
             status = STARTED, metadata = Map.empty, duration = None, parent_id = None,
             children = []\<rparr>"
  have s1: "enabled (config ?s1)" "max_history (config ?s1) = 0" "activities ?s1 ''u1'' = Some ?a1"
    "activities ?s1 ''u2'' = Some ?a2" "activities_history ?s1 = []"
    by (simp_all add: capped_monitor_def init_monitor_def default_config_def
      start_fetch_def start_activity_def Let_def)
  let ?s2 = "snd (end_activity 2 ''u1'' COMPLETED None ?s1)"
  have h2: "activities_history ?s2 = [finalized 2 COMPLETED None ?a1]"
    using zero_cap_never_trims[OF s1(1) _ s1(3) s1(2), of 2 COMPLETED None] s1(5) by simp
  have s2: "enabled (config ?s2)" "max_history (config ?s2) = 0" "activities ?s2 ''u2'' = Some ?a2"
    using end_activity_live[OF s1(1) _ s1(3), of 2 COMPLETED None] s1 by simp_all
  let ?s3 = "snd (end_activity 3 ''u2'' COMPLETED None ?s2)"
  have h3: "activities_history ?s3 = [finalized 2 COMPLETED None ?a1, finalized 3 COMPLETED None ?a2]"
    using zero_cap_never_trims[OF s2(1) _ s2(3) s2(2), of 3 COMPLETED None] h2 by simp
  have "run eviction_run (capped_monitor 0) = ?s3" by (simp add: eviction_run_def)
  then show ?thesis using h3 by (simp add: capped_monitor_def init_monitor_def)
qed

section \<open>The average over a sequence of updates\<close>

lemma update_agent_metrics_on:
  assumes "enabled (config s)" and "enable_agent_metrics (config s)"
  shows "update_agent_metrics nm u s =
     s\<lparr>agent_metrics := (agent_metrics s)(nm \<mapsto> apply_metrics_update u
          (case agent_metrics s nm of None \<Rightarrow> new_agent_metrics nm | Some m \<Rightarrow> m))\<rparr>"
  using assms by (simp add: update_agent_metrics_def Let_def)

lemma update_agent_metrics_all_on:
  "enabled (config s) \<Longrightarrow> enable_agent_metrics (config s) \<Longrightarrow> us \<noteq> [] \<Longrightarrow>
   agent_metrics (update_agent_metrics_all nm us s) nm =
     Some (apply_all us (case agent_metrics s nm of None \<Rightarrow> new_agent_metrics nm | Some m \<Rightarrow> m))"
proof (induction us arbitrary: s)
  case Nil
  then show ?case by simp
next
  case (Cons u us)
  let ?m0 = "case agent_metrics s nm of None \<Rightarrow> new_agent_metrics nm | Some m \<Rightarrow> m"
  let ?s1 = "update_agent_metrics nm u s"
  note on = update_agent_metrics_on[OF Cons.prems(1,2), of nm u]
  have en: "enabled (config ?s1)" "enable_agent_metrics (config ?s1)"
    using on Cons.prems by simp_all
  have m1: "agent_metrics ?s1 nm = Some (apply_metrics_update u ?m0)" using on by simp
  show ?case
  proof (cases "us = []")
    case True
    then show ?thesis using m1 by (simp add: apply_all_def)
  next
    case False
    then show ?thesis using Cons.IH[OF en False] m1 by (simp add: apply_all_def)
  qed
qed

lemma apply_unflagged_zero:
  assumes "unflagged u" and "tasks_completed m + tasks_failed m = 0"
  shows "tasks_completed (apply_metrics_update u m) + tasks_failed (apply_metrics_update u m) = 0 \<and>
         average_response_time (apply_metrics_update u m) = average_response_time m"
  using assms by (simp add: apply_metrics_update_def unflagged_def Let_def split: option.splits)

lemma apply_idle:
  assumes "idle u"
  shows "tasks_completed (apply_metrics_update u m) + tasks_failed (apply_metrics_update u m)
           = tasks_completed m + tasks_failed m \<and>
         average_response_time (apply_metrics_update u m) = average_response_time m"
  using assms by (simp add: apply_metrics_update_def idle_def Let_def split: option.splits)

lemma apply_paired:
  assumes "paired u" and "response_time u = Some x" and "0 \<le> tasks_completed m + tasks_failed m"
  shows "tasks_completed (apply_metrics_update u m) + tasks_failed (apply_metrics_update u m)
           = tasks_completed m + tasks_failed m + 1 \<and>
         average_response_time (apply_metrics_update u m) =
           (average_response_time m * of_int (tasks_completed m + tasks_failed m) + x)
           / of_int (tasks_completed m + tasks_failed m + 1)"
  using assms
  by (auto simp add: apply_metrics_update_def paired_def Let_def add.commute add.left_commute
      split: option.splits)

lemma flagged_samples_Cons:
  "flagged_samples (u # us) =
     (case response_time u of None \<Rightarrow> []
      | Some x \<Rightarrow> if task_completed u \<or> task_failed u then [x] else []) @ flagged_samples us"
  by (simp add: flagged_samples_def)

lemma flagged_samples_append: "flagged_samples (us @ vs) = flagged_samples us @ flagged_samples vs"
  by (simp add: flagged_samples_def)

lemma apply_all_unflagged:
  "\<forall>u \<in> set us. unflagged u \<Longrightarrow> tasks_completed m + tasks_failed m = 0 \<Longrightarrow>
   tasks_completed (apply_all us m) + tasks_failed (apply_all us m) = 0 \<and>
   average_response_time (apply_all us m) = average_response_time m \<and>
   flagged_samples us = []"
proof (induction us arbitrary: m)
  case Nil
  then show ?case by (simp add: apply_all_def flagged_samples_def)
next
  case (Cons u us)
  have u: "unflagged u" using Cons.prems by simp
  note a = apply_unflagged_zero[OF u Cons.prems(2)]
  have "tasks_completed (apply_all us (apply_metrics_update u m)) +
        tasks_failed (apply_all us (apply_metrics_update u m)) = 0 \<and>
   average_response_time (apply_all us (apply_metrics_update u m)) =
     average_response_time (apply_metrics_update u m) \<and> flagged_samples us = []"
    using Cons.IH[of "apply_metrics_update u m"] Cons.prems a by simp
  then show ?case using a u
    by (simp add: apply_all_def flagged_samples_Cons unflagged_def split: option.splits)
qed

lemma apply_all_paired:
  "\<forall>u \<in> set us. paired u \<or> idle u \<Longrightarrow> 0 \<le> tasks_completed m + tasks_failed m \<Longrightarrow>
   tasks_completed (apply_all us m) + tasks_failed (apply_all us m)
     = tasks_completed m + tasks_failed m + int (length (flagged_samples us)) \<and>
   average_response_time (apply_all us m) =
     (if flagged_samples us = [] then average_response_time m
      else (average_response_time m * of_int (tasks_completed m + tasks_failed m)
              + sum_list (flagged_samples us))
           / of_int (tasks_completed m + tasks_failed m + int (length (flagged_samples us))))"
proof (induction us arbitrary: m)
  case Nil
  then show ?case by (simp add: apply_all_def flagged_samples_def)
next
  case (Cons u us)
  let ?m1 = "apply_metrics_update u m"
  let ?n = "tasks_completed m + tasks_failed m"
  have all: "\<forall>u \<in> set us. paired u \<or> idle u" using Cons.prems by simp
  have step: "apply_all (u # us) m = apply_all us ?m1" by (simp add: apply_all_def)
  from Cons.prems have "paired u \<or> idle u" by simp
  then show ?case
  proof
    assume i: "idle u"
    note a = apply_idle[OF i, of m]
    have f: "flagged_samples (u # us) = flagged_samples us"
      using i by (simp add: flagged_samples_Cons idle_def)
    have n1: "0 \<le> tasks_completed ?m1 + tasks_failed ?m1" using a Cons.prems(2) by simp
    show ?thesis unfolding step f using Cons.IH[OF all n1] a by simp
  next
    assume p: "paired u"
    then obtain x where x: "response_time u = Some x" by (auto simp add: paired_def)
    note a = apply_paired[OF p x Cons.prems(2)]
    have f: "flagged_samples (u # us) = x # flagged_samples us"
      using p x by (auto simp add: flagged_samples_Cons paired_def)
    have n1: "0 \<le> tasks_completed ?m1 + tasks_failed ?m1" using a Cons.prems(2) by simp
    have pos: "(of_int (?n + 1) :: real) \<noteq> 0" using Cons.prems(2) by simp
    have avg1: "average_response_time ?m1 * of_int (?n + 1) = average_response_time m * of_int ?n + x"
      using a pos by (simp add: field_simps)
    note ih = Cons.IH[OF all n1]
    have cnt: "tasks_completed (apply_all us ?m1) + tasks_failed (apply_all us ?m1)
        = ?n + int (length (x # flagged_samples us))"
      using ih a by simp
    have av: "average_response_time (apply_all us ?m1) =
       (average_response_time m * of_int ?n + sum_list (x # flagged_samples us))
           / of_int (?n + int (length (x # flagged_samples us)))"
    proof (cases "flagged_samples us = []")
      case True
      then show ?thesis using ih a by simp
    next
      case False
      have "average_response_time (apply_all us ?m1) =
         (average_response_time ?m1 * of_int (?n + 1) + sum_list (flagged_samples us))
           / of_int (?n + 1 + int (length (flagged_samples us)))"
        using ih a False by simp
      then show ?thesis unfolding avg1 by (simp add: add.assoc add.commute add.left_commute)
    qed
    show ?thesis unfolding step f using cnt av by simp
  qed
qed

lemma apply_all_append: "apply_all (us @ vs) m = apply_all vs (apply_all us m)"
  by (simp add: apply_all_def)

text \<open>
  Claim C8, as the code has it. For an entity that has no metrics yet, with the store
  and the agent metrics enabled, and a sequence of updates in which first come updates
  without a flag (their samples are dropped, no task being counted yet) and then
  updates that each carry either exactly one of the two flags together with a sample,
  or no flag and no sample: the final average is the arithmetic mean of the samples
  that came with a flag (0 when there is none). Averages are exact reals.
\<close>

theorem average_is_mean_when_paired:
  assumes "enabled (config s)" and "enable_agent_metrics (config s)"
    and "agent_metrics s nm = None"
    and "\<forall>u \<in> set pre. unflagged u" and "\<forall>u \<in> set post. paired u \<or> idle u"
    and "pre @ post \<noteq> []"
  shows "map_option average_response_time
           (agent_metrics (update_agent_metrics_all nm (pre @ post) s) nm) =
         Some (if flagged_samples (pre @ post) = [] then 0
               else mean (flagged_samples (pre @ post)))"
proof -
  let ?m0 = "new_agent_metrics nm"
  let ?m1 = "apply_all pre ?m0"
  have z: "tasks_completed ?m0 + tasks_failed ?m0 = 0" "average_response_time ?m0 = 0"
    by (simp_all add: new_agent_metrics_def)
  note p = apply_all_unflagged[OF assms(4) z(1)]
  have n1: "0 \<le> tasks_completed ?m1 + tasks_failed ?m1" using p by simp
  note q = apply_all_paired[OF assms(5) n1]
  have fl: "flagged_samples (pre @ post) = flagged_samples post"
    using p by (simp add: flagged_samples_append)
  have "agent_metrics (update_agent_metrics_all nm (pre @ post) s) nm =
          Some (apply_all post ?m1)"
    using update_agent_metrics_all_on[OF assms(1,2,6), of nm] assms(3)
    by (simp add: apply_all_append)
  moreover have "average_response_time (apply_all post ?m1) =
      (if flagged_samples post = [] then 0 else mean (flagged_samples post))"
    using q p z by (simp add: mean_def)
  ultimately show ?thesis unfolding fl by simp
qed

text \<open>
  The claim as stated fails: a sample that comes without a flag after a task was
  counted is not dropped. After a completed task with the sample 2 and then the sample
  4 alone, the average is 4, and the mean of the samples that came with a flag is 2.
\<close>

theorem average_is_mean_when_paired_counterexample:
  "map_option average_response_time
     (agent_metrics (update_agent_metrics_all ''agent'' pair_run on_monitor) ''agent'') = Some 4 \<and>
   mean (flagged_samples pair_run) = 2"
  by (simp add: pair_run_def sample_update_def on_monitor_def init_monitor_def default_config_def
      update_agent_metrics_def apply_metrics_update_def new_agent_metrics_def Let_def
      flagged_samples_def mean_def)

theorem average_is_mean_when_paired_witness:
  "unflagged (sample_update False 9) \<and> paired (sample_update True 2) \<and>
   paired (sample_update True 4) \<and>
   map_option average_response_time
     (agent_metrics (update_agent_metrics_all ''agent''
        ([sample_update False 9] @ [sample_update True 2, sample_update True 4]) on_monitor) ''agent'')
     = Some 3"
proof -
  have a: "\<forall>u \<in> set [sample_update False 9]. unflagged u"
    by (simp add: unflagged_def sample_update_def)
  have b: "\<forall>u \<in> set [sample_update True 2, sample_update True 4]. paired u \<or> idle u"
    by (simp add: paired_def sample_update_def)
  have c: "enabled (config on_monitor)" "enable_agent_metrics (config on_monitor)"
    "agent_metrics on_monitor ''agent'' = None"
    by (simp_all add: on_monitor_def init_monitor_def default_config_def)
  have f: "flagged_samples ([sample_update False 9] @ [sample_update True 2, sample_update True 4]) = [2, 4]"
    by (simp add: flagged_samples_def sample_update_def)
  have p: "paired (sample_update True 2)" "paired (sample_update True 4)"
    by (simp_all add: paired_def sample_update_def)
  from average_is_mean_when_paired[OF c a b]
  show ?thesis using a p unfolding f by (simp add: mean_def)
qed

end
